theory Spec2Isabelle
  imports Main
begin

section \<open>Conway's Game of Life on a torus: the simulation core of life_simulation.py\<close>

text \<open>
  The program keeps the board in a two-dimensional numpy array. Here an array is the list
  of its rows, and a cell holds an integer. The two sentinels of the source are
  \<^verbatim>\<open>ON = 255\<close> and \<^verbatim>\<open>OFF = 0\<close>, collected in \<^verbatim>\<open>vals = [ON, OFF]\<close>.
\<close>

type_synonym grid = "int list list"

datatype error = IndexError | ValueError

definition ON :: int where
  "ON = 255"

definition OFF :: int where
  "OFF = 0"

definition vals :: "int list" where
  "vals = [ON, OFF]"

subsection \<open>Array primitives\<close>

text \<open>
  \<open>nrows\<close> and \<open>ncols\<close> are the two components of the array's shape. An integer index
  \<open>k\<close> into an axis of length \<open>n\<close> is valid from \<open>- n\<close> to \<open>n - 1\<close>, a negative one
  counting from the end; any other raises IndexError.
\<close>

definition nrows :: "grid \<Rightarrow> nat" where
  "nrows g = length g"

definition ncols :: "grid \<Rightarrow> nat" where
  "ncols g = (case g of [] \<Rightarrow> 0 | r # _ \<Rightarrow> length r)"

definition norm_index :: "nat \<Rightarrow> int \<Rightarrow> error + nat" where
  "norm_index n k =
     (if 0 \<le> k \<and> k < int n then Inr (nat k)
      else if - int n \<le> k \<and> k < 0 then Inr (nat (k + int n))
      else Inl IndexError)"

text \<open>\<open>get g a b\<close> is the read \<^verbatim>\<open>grid[a, b]\<close>, \<open>put g a b v\<close> the write \<^verbatim>\<open>grid[a, b] = v\<close>.\<close>

definition get :: "grid \<Rightarrow> int \<Rightarrow> int \<Rightarrow> error + int" where
  "get g a b =
     (case norm_index (nrows g) a of
        Inl e \<Rightarrow> Inl e
      | Inr r \<Rightarrow>
          (case norm_index (length (g ! r)) b of
             Inl e \<Rightarrow> Inl e
           | Inr c \<Rightarrow> Inr (g ! r ! c)))"

definition put :: "grid \<Rightarrow> int \<Rightarrow> int \<Rightarrow> int \<Rightarrow> error + grid" where
  "put g a b v =
     (case norm_index (nrows g) a of
        Inl e \<Rightarrow> Inl e
      | Inr r \<Rightarrow>
          (case norm_index (length (g ! r)) b of
             Inl e \<Rightarrow> Inl e
           | Inr c \<Rightarrow> Inr (g[r := (g ! r)[c := v]])))"

text \<open>
  \<open>bind\<close> sequences two steps, the first error ending the computation as the exception
  does. \<open>for_each\<close> is a \<^verbatim>\<open>for\<close> loop over a finite sequence whose body updates a state;
  \<open>py_range\<close> is Python's \<^verbatim>\<open>range(N)\<close>, empty when \<open>N \<le> 0\<close>.
\<close>

definition bind :: "error + 'a \<Rightarrow> ('a \<Rightarrow> error + 'b) \<Rightarrow> error + 'b" where
  "bind m f = (case m of Inl e \<Rightarrow> Inl e | Inr x \<Rightarrow> f x)"

primrec for_each :: "('a \<Rightarrow> 's \<Rightarrow> error + 's) \<Rightarrow> 'a list \<Rightarrow> 's \<Rightarrow> error + 's" where
  "for_each body [] s = Inr s"
| "for_each body (x # xs) s = bind (body x s) (for_each body xs)"

definition py_range :: "int \<Rightarrow> int list" where
  "py_range N = map int [0..<nat N]"

subsection \<open>random\_grid\<close>

text \<open>
  \<^verbatim>\<open>np.random.choice(vals, N*N, p=[0.2, 0.8]).reshape(N, N)\<close>.
  The generator is outside the program: \<open>draws k\<close> tells whether the \<open>k\<close>-th sample picked
  the first entry of \<open>vals\<close> (which it does with probability 0.2) or the second. The
  function has the dimension as its only argument; the two probabilities are literals.
  \<open>reshape_square\<close> is \<^verbatim>\<open>.reshape(N, N)\<close>: two negative extents are two unknown
  dimensions, which numpy refuses with ValueError, as it refuses a shape whose size is not
  the number of elements.
\<close>

definition choice :: "int list \<Rightarrow> int \<Rightarrow> (nat \<Rightarrow> bool) \<Rightarrow> int list" where
  "choice vs cnt draws = map (\<lambda>k. if draws k then vs ! 0 else vs ! 1) [0..<nat cnt]"

definition reshape_square :: "int list \<Rightarrow> int \<Rightarrow> error + grid" where
  "reshape_square xs N =
     (if N < 0 then Inl ValueError
      else if nat N * nat N \<noteq> length xs then Inl ValueError
      else Inr (map (\<lambda>r. take (nat N) (drop (r * nat N) xs)) [0..<nat N]))"

definition random_grid :: "int \<Rightarrow> (nat \<Rightarrow> bool) \<Rightarrow> error + grid" where
  "random_grid N draws = reshape_square (choice vals (N * N) draws) N"

subsection \<open>add\_glider\<close>

text \<open>
  \<^verbatim>\<open>grid[i:i+3, j:j+3] = glider\<close>.
  A slice \<^verbatim>\<open>a:b\<close> of an axis of length \<open>n\<close> never raises: each bound is shifted by \<open>n\<close>
  when negative and then clipped to \<open>0..n\<close>. \<open>slice_range\<close> gives the first index and the
  number of indices selected. The assignment broadcasts the 3 by 3 pattern to the shape of
  the selected block, which succeeds only when the block is 3 by 3; otherwise numpy raises
  ValueError before it writes anything.
\<close>

definition glider :: grid where
  "glider = [[0, 0, 255],
             [255, 0, 255],
             [0, 255, 255]]"

definition clip :: "nat \<Rightarrow> int \<Rightarrow> int" where
  "clip n k = (if k < 0 then max (k + int n) 0 else min k (int n))"

definition slice_range :: "nat \<Rightarrow> int \<Rightarrow> int \<Rightarrow> nat \<times> nat" where
  "slice_range n a b = (nat (clip n a), nat (clip n b - clip n a))"

primrec assign_row :: "int list \<Rightarrow> nat \<Rightarrow> int list \<Rightarrow> int list" where
  "assign_row row c [] = row"
| "assign_row row c (v # vs) = assign_row (row[c := v]) (Suc c) vs"

primrec assign_block :: "grid \<Rightarrow> nat \<Rightarrow> nat \<Rightarrow> grid \<Rightarrow> grid" where
  "assign_block g r c [] = g"
| "assign_block g r c (vs # blk) = assign_block (g[r := assign_row (g ! r) c vs]) (Suc r) c blk"

definition add_glider :: "int \<Rightarrow> int \<Rightarrow> grid \<Rightarrow> error + grid" where
  "add_glider i j g =
     (let (r, h) = slice_range (nrows g) i (i + 3);
          (c, w) = slice_range (ncols g) j (j + 3)
      in if h = 3 \<and> w = 3 then Inr (assign_block g r c glider) else Inl ValueError)"

text \<open>
  Both mutating operations change the caller's array only when they do not raise:
  \<open>grid_after g res\<close> is what the array \<open>g\<close> holds after a call with outcome \<open>res\<close>.
\<close>

definition grid_after :: "grid \<Rightarrow> error + grid \<Rightarrow> grid" where
  "grid_after g res = (case res of Inl e \<Rightarrow> g | Inr g' \<Rightarrow> g')"

subsection \<open>update\<close>

text \<open>
  \<open>trunc_quot s d\<close> is \<^verbatim>\<open>int(s / d)\<close>: the quotient with its fractional part dropped.
  (The source divides in floating point; for sums as small as eight cells the quotient is
  exact.) \<open>total_count\<close> is the neighbour sum of lines 60 to 63, its eight reads in the order of
  the source, every index reduced with Python's \<^verbatim>\<open>%\<close>, which for a positive modulus is
  \<open>mod\<close> on \<open>int\<close>.
\<close>

definition trunc_quot :: "int \<Rightarrow> int \<Rightarrow> int" where
  "trunc_quot s d = sgn s * sgn d * (\<bar>s\<bar> div \<bar>d\<bar>)"

definition neighbours :: "int \<Rightarrow> int \<Rightarrow> int \<Rightarrow> (int \<times> int) list" where
  "neighbours N i j =
     [(i, (j - 1) mod N), (i, (j + 1) mod N),
      ((i - 1) mod N, j), ((i + 1) mod N, j),
      ((i - 1) mod N, (j - 1) mod N), ((i - 1) mod N, (j + 1) mod N),
      ((i + 1) mod N, (j - 1) mod N), ((i + 1) mod N, (j + 1) mod N)]"

primrec sum_cells :: "grid \<Rightarrow> (int \<times> int) list \<Rightarrow> int \<Rightarrow> error + int" where
  "sum_cells g [] acc = Inr acc"
| "sum_cells g (p # ps) acc = bind (get g (fst p) (snd p)) (\<lambda>v. sum_cells g ps (acc + v))"

definition total_count :: "int \<Rightarrow> grid \<Rightarrow> int \<Rightarrow> int \<Rightarrow> error + int" where
  "total_count N g i j = bind (sum_cells g (neighbours N i j) 0) (\<lambda>s. Inr (trunc_quot s 255))"

text \<open>
  The body of the inner loop (lines 60 to 71): the rule reads the old generation \<open>g\<close> and
  writes the copy \<open>new_grid\<close>, and a cell whose state stays is not written. The two
  loops run over \<^verbatim>\<open>range(N)\<close>, starting from \<^verbatim>\<open>new_grid = grid.copy()\<close>; for
  \<open>N \<le> 0\<close> the body, and with it the modulus by \<open>N\<close>, is never reached.
\<close>

definition cell_step :: "int \<Rightarrow> grid \<Rightarrow> int \<Rightarrow> int \<Rightarrow> grid \<Rightarrow> error + grid" where
  "cell_step N g i j new_grid =
     bind (total_count N g i j) (\<lambda>t.
     bind (get g i j) (\<lambda>c.
       if c = ON then
         (if t < 2 \<or> t > 3 then put new_grid i j OFF else Inr new_grid)
       else
         (if t = 3 then put new_grid i j ON else Inr new_grid)))"

definition next_generation :: "int \<Rightarrow> grid \<Rightarrow> error + grid" where
  "next_generation N g =
     for_each (\<lambda>i. for_each (\<lambda>j. cell_step N g i j) (py_range N)) (py_range N) g"

text \<open>
  \<open>update frame_num img g N\<close>: the image is modelled by the data it shows. The result is
  the pair of the image's new data and the new contents of the caller's array; when an
  exception leaves the loop neither has been touched.
\<close>

definition update :: "nat \<Rightarrow> grid \<Rightarrow> grid \<Rightarrow> int \<Rightarrow> error + grid \<times> grid" where
  "update frame_num img g N =
     bind (next_generation N g) (\<lambda>new_grid. Inr (new_grid, new_grid))"

subsection \<open>The specification's vocabulary\<close>

text \<open>
  A grid of dimension \<open>n\<close> is well formed when it has \<open>n\<close> rows of \<open>n\<close> cells and every
  cell holds one of the two sentinels.
\<close>

definition well_formed :: "nat \<Rightarrow> grid \<Rightarrow> bool" where
  "well_formed n g \<longleftrightarrow>
     length g = n \<and> (\<forall>row \<in> set g. length row = n \<and> (\<forall>c \<in> set row. c = ON \<or> c = OFF))"

text \<open>
  The eight neighbour positions of cell \<open>(i, j)\<close> on the torus of dimension \<open>n\<close>, as the
  specification lists them: \<open>(i, j \<plusminus> 1)\<close>, \<open>(i \<plusminus> 1, j)\<close>, \<open>(i \<plusminus> 1, j \<plusminus> 1)\<close>, every
  component modulo \<open>n\<close> (on natural numbers the predecessor modulo \<open>n\<close> is
  \<open>(j + n - 1) mod n\<close>). \<open>alive_neighbours\<close> counts the positions of that list that hold
  ON; a position listed twice, as on grids of dimension 1 and 2, counts twice.
\<close>

definition torus_neighbours :: "nat \<Rightarrow> nat \<Rightarrow> nat \<Rightarrow> (nat \<times> nat) list" where
  "torus_neighbours n i j =
     [(i, (j + n - 1) mod n), (i, (j + 1) mod n),
      ((i + n - 1) mod n, j), ((i + 1) mod n, j),
      ((i + n - 1) mod n, (j + n - 1) mod n), ((i + n - 1) mod n, (j + 1) mod n),
      ((i + 1) mod n, (j + n - 1) mod n), ((i + 1) mod n, (j + 1) mod n)]"

definition alive_neighbours :: "nat \<Rightarrow> grid \<Rightarrow> nat \<Rightarrow> nat \<Rightarrow> nat" where
  "alive_neighbours n g i j =
     length (filter (\<lambda>p. g ! fst p ! snd p = ON) (torus_neighbours n i j))"

text \<open>
  The rule table of the specification, and the simultaneous step it describes: every cell
  of the next generation is the rule applied to that cell and its neighbour count in the
  current generation, nothing else.
\<close>

definition rule :: "int \<Rightarrow> int \<Rightarrow> int" where
  "rule c t = (if c = ON then (if t = 2 \<or> t = 3 then ON else OFF)
               else (if t = 3 then ON else OFF))"

definition next_cell :: "nat \<Rightarrow> grid \<Rightarrow> nat \<Rightarrow> nat \<Rightarrow> int" where
  "next_cell n g i j = rule (g ! i ! j) (int (alive_neighbours n g i j))"

definition buffered_step :: "nat \<Rightarrow> grid \<Rightarrow> grid" where
  "buffered_step n g = map (\<lambda>i. map (\<lambda>j. next_cell n g i j) [0..<n]) [0..<n]"

text \<open>
  For comparison only: the step the program would make without its copy, each cell read
  from and written to the one array, so that a cell sees the new state of the cells
  visited before it.
\<close>

definition unbuffered_step :: "int \<Rightarrow> grid \<Rightarrow> error + grid" where
  "unbuffered_step N g =
     for_each (\<lambda>i. for_each (\<lambda>j s. cell_step N s i j s) (py_range N)) (py_range N) g"

subsection \<open>Example boards\<close>

definition dead_grid :: "nat \<Rightarrow> grid" where
  "dead_grid n = replicate n (replicate n OFF)"

definition lone_cell :: grid where
  "lone_cell = [[ON, OFF, OFF, OFF, OFF],
                [OFF, OFF, OFF, OFF, OFF],
                [OFF, OFF, OFF, OFF, OFF],
                [OFF, OFF, OFF, OFF, OFF],
                [OFF, OFF, OFF, OFF, OFF]]"

definition blinker :: grid where
  "blinker = [[OFF, OFF, OFF, OFF, OFF],
              [OFF, OFF, ON, OFF, OFF],
              [OFF, OFF, ON, OFF, OFF],
              [OFF, OFF, ON, OFF, OFF],
              [OFF, OFF, OFF, OFF, OFF]]"

definition blinker_turned :: grid where
  "blinker_turned = [[OFF, OFF, OFF, OFF, OFF],
                     [OFF, OFF, OFF, OFF, OFF],
                     [OFF, ON, ON, ON, OFF],
                     [OFF, OFF, OFF, OFF, OFF],
                     [OFF, OFF, OFF, OFF, OFF]]"

definition no_draws :: "nat \<Rightarrow> bool" where
  "no_draws k = False"

section \<open>Reads, writes and the neighbour count\<close>

lemma well_formed_nth:
  "well_formed n g \<Longrightarrow> i < n \<Longrightarrow> j < n \<Longrightarrow> g ! i ! j = ON \<or> g ! i ! j = OFF"
  by (simp add: well_formed_def) (metis nth_mem)

lemma well_formed_length: "well_formed n g \<Longrightarrow> length g = n"
  by (simp add: well_formed_def)

lemma well_formed_row: "well_formed n g \<Longrightarrow> i < n \<Longrightarrow> length (g ! i) = n"
  by (simp add: well_formed_def)

lemma get_in_range:
  "i < length g \<Longrightarrow> j < length (g ! i) \<Longrightarrow> get g (int i) (int j) = Inr (g ! i ! j)"
  by (simp add: get_def norm_index_def nrows_def)

lemma put_in_range:
  "i < length g \<Longrightarrow> j < length (g ! i) \<Longrightarrow>
   put g (int i) (int j) v = Inr (g[i := (g ! i)[j := v]])"
  by (simp add: put_def norm_index_def nrows_def)

lemma mod_pred: "0 < n \<Longrightarrow> (int j - 1) mod int n = int ((j + n - 1) mod n)"
proof -
  assume "0 < n"
  then have "int (j + n - 1) = int j - 1 + int n" by simp
  then show ?thesis by (simp add: zmod_int)
qed

lemma mod_succ: "(int j + 1) mod int n = int ((j + 1) mod n)"
  by (simp add: zmod_int add.commute)

lemma neighbours_torus:
  "0 < n \<Longrightarrow> neighbours (int n) (int i) (int j) =
     map (\<lambda>p. (int (fst p), int (snd p))) (torus_neighbours n i j)"
  by (simp add: neighbours_def torus_neighbours_def mod_pred mod_succ)

lemma torus_in_range:
  "0 < n \<Longrightarrow> i < n \<Longrightarrow> j < n \<Longrightarrow> p \<in> set (torus_neighbours n i j) \<Longrightarrow> fst p < n \<and> snd p < n"
  by (auto simp add: torus_neighbours_def)

lemma sum_cells_torus:
  assumes "\<forall>p \<in> set ps. fst p < length g \<and> snd p < length (g ! fst p)"
  shows "sum_cells g (map (\<lambda>p. (int (fst p), int (snd p))) ps) acc =
           Inr (acc + sum_list (map (\<lambda>p. g ! fst p ! snd p) ps))"
  using assms
  by (induction ps arbitrary: acc) (simp_all add: bind_def get_in_range)

lemma sum_list_sentinels:
  assumes "\<forall>p \<in> set ps. g ! fst p ! snd p = ON \<or> g ! fst p ! snd p = OFF"
  shows "sum_list (map (\<lambda>p. g ! fst p ! snd p) ps) =
           255 * int (length (filter (\<lambda>p. g ! fst p ! snd p = ON) ps))"
  using assms
  by (induction ps) (auto simp add: ON_def OFF_def)

lemma trunc_quot_multiple: "trunc_quot (255 * int k) 255 = int k"
  by (simp add: trunc_quot_def sgn_if)

lemma total_alive_neighbours:
  assumes wf: "well_formed n g" and i: "i < n" and j: "j < n"
  shows "total_count (int n) g (int i) (int j) = Inr (int (alive_neighbours n g i j))"
proof -
  have n: "0 < n" using i by simp
  have rng: "\<forall>p \<in> set (torus_neighbours n i j). fst p < n \<and> snd p < n"
    using torus_in_range [OF n i j] by blast
  have a: "\<forall>p \<in> set (torus_neighbours n i j). fst p < length g \<and> snd p < length (g ! fst p)"
    using rng wf by (simp add: well_formed_length well_formed_row)
  have b: "\<forall>p \<in> set (torus_neighbours n i j). g ! fst p ! snd p = ON \<or> g ! fst p ! snd p = OFF"
    using rng wf well_formed_nth by blast
  show ?thesis
    unfolding total_count_def neighbours_torus [OF n] sum_cells_torus [OF a] sum_list_sentinels [OF b]
    by (simp add: bind_def trunc_quot_multiple alive_neighbours_def)
qed

lemma alive_neighbours_le: "alive_neighbours n g i j \<le> 8"
proof -
  have "alive_neighbours n g i j \<le> length (torus_neighbours n i j)"
    unfolding alive_neighbours_def by (rule length_filter_le)
  then show ?thesis by (simp add: torus_neighbours_def)
qed

section \<open>The loop computes the simultaneous step\<close>

lemma for_each_append:
  "for_each body (xs @ ys) s = bind (for_each body xs s) (for_each body ys)"
  by (induction xs arbitrary: s) (simp_all add: bind_def split: sum.splits)

lemma py_range_nat: "py_range (int n) = map int [0..<n]"
  by (simp add: py_range_def)

lemma cell_step_rule:
  assumes wf: "well_formed n g" and i: "i < n" and j: "j < n"
    and len: "length new_grid = n" and row: "length (new_grid ! i) = n"
    and same: "new_grid ! i ! j = g ! i ! j"
  shows "cell_step (int n) g (int i) (int j) new_grid =
           Inr (new_grid[i := (new_grid ! i)[j := rule (g ! i ! j) (int (alive_neighbours n g i j))]])"
proof -
  have c: "g ! i ! j = ON \<or> g ! i ! j = OFF"
    using wf i j by (rule well_formed_nth)
  have rd: "get g (int i) (int j) = Inr (g ! i ! j)"
    using wf i j by (simp add: get_in_range well_formed_length well_formed_row)
  have wr: "put new_grid (int i) (int j) v = Inr (new_grid[i := (new_grid ! i)[j := v]])" for v
    using i j len row by (simp add: put_in_range)
  have keep: "new_grid[i := (new_grid ! i)[j := g ! i ! j]] = new_grid"
    using same by (metis list_update_id)
  show ?thesis
    unfolding cell_step_def total_alive_neighbours [OF wf i j] rd
    using c keep by (auto simp add: bind_def wr rule_def ON_def OFF_def)
qed

lemma update_front:
  assumes "length xs = k" and "k < length ys"
  shows "(xs @ drop k ys)[k := v] = (xs @ [v]) @ drop (Suc k) ys"
proof -
  have "drop k ys = ys ! k # drop (Suc k) ys"
    using assms(2) by (simp add: Cons_nth_drop_Suc)
  then show ?thesis
    using assms(1) by (simp add: list_update_append)
qed

lemma row_loop:
  assumes wf: "well_formed n g" and i: "i < n" and len: "length new_grid = n"
    and same: "new_grid ! i = g ! i"
  shows "k \<le> n \<Longrightarrow>
         for_each (\<lambda>j. cell_step (int n) g (int i) j) (map int [0..<k]) new_grid =
           Inr (new_grid[i := map (next_cell n g i) [0..<k] @ drop k (g ! i)])"
proof (induction k)
  case 0
  show ?case using same by (simp add: list_update_id [of new_grid i, unfolded same])
next
  case (Suc k)
  let ?row = "map (next_cell n g i) [0..<k] @ drop k (g ! i)"
  let ?ng = "new_grid[i := ?row]"
  have k: "k < n" using Suc.prems by simp
  have gi: "length (g ! i) = n" using wf i by (rule well_formed_row)
  have prev: "for_each (\<lambda>j. cell_step (int n) g (int i) j) (map int [0..<k]) new_grid = Inr ?ng"
    using Suc.IH k by simp
  have l1: "length ?ng = n" using len by simp
  have r: "?ng ! i = ?row" using i len by simp
  have l2: "length (?ng ! i) = n" unfolding r using k gi by simp
  have s: "?ng ! i ! k = g ! i ! k"
    unfolding r using k gi by (simp add: nth_append)
  have step: "cell_step (int n) g (int i) (int k) ?ng =
                Inr (?ng[i := (?ng ! i)[k := next_cell n g i k]])"
    using cell_step_rule [OF wf i k l1 l2 s] by (simp only: next_cell_def)
  have row': "?row[k := next_cell n g i k] =
                map (next_cell n g i) [0..<Suc k] @ drop (Suc k) (g ! i)"
    using update_front [of "map (next_cell n g i) [0..<k]" k "g ! i"] k gi by simp
  show ?case
    unfolding upt_Suc_append [OF le0] map_append for_each_append prev
    by (simp add: bind_def step r row')
qed

lemma grid_loop:
  assumes wf: "well_formed n g"
  shows "k \<le> n \<Longrightarrow>
         for_each (\<lambda>i. for_each (\<lambda>j. cell_step (int n) g i j) (py_range (int n)))
           (map int [0..<k]) g =
           Inr (map (\<lambda>i. map (next_cell n g i) [0..<n]) [0..<k] @ drop k g)"
proof (induction k)
  case 0
  show ?case by simp
next
  case (Suc k)
  let ?done = "map (\<lambda>i. map (next_cell n g i) [0..<n]) [0..<k]"
  let ?ng = "?done @ drop k g"
  have k: "k < n" using Suc.prems by simp
  have lg: "length g = n" using wf by (rule well_formed_length)
  have gk: "length (g ! k) = n" using wf k by (rule well_formed_row)
  have prev: "for_each (\<lambda>i. for_each (\<lambda>j. cell_step (int n) g i j) (py_range (int n)))
                (map int [0..<k]) g = Inr ?ng"
    using Suc.IH k by simp
  have l1: "length ?ng = n" using k lg by simp
  have s: "?ng ! k = g ! k" using k lg by (simp add: nth_append)
  have row: "for_each (\<lambda>j. cell_step (int n) g (int k) j) (py_range (int n)) ?ng =
               Inr (?ng[k := map (next_cell n g k) [0..<n]])"
    using row_loop [OF wf k l1 s, of n] gk by (simp add: py_range_nat)
  have ng': "?ng[k := map (next_cell n g k) [0..<n]] =
               map (\<lambda>i. map (next_cell n g i) [0..<n]) [0..<Suc k] @ drop (Suc k) g"
    using update_front [of ?done k g] k lg by simp
  show ?case
    unfolding upt_Suc_append [OF le0] map_append for_each_append prev
    by (simp add: bind_def row ng')
qed

lemma next_generation_buffered:
  assumes wf: "well_formed n g"
  shows "next_generation (int n) g = Inr (buffered_step n g)"
  using grid_loop [OF wf, of n] wf
  by (simp add: next_generation_def buffered_step_def py_range_nat well_formed_length)

lemma update_buffered:
  assumes wf: "well_formed n g"
  shows "update f img g (int n) = Inr (buffered_step n g, buffered_step n g)"
  by (simp add: update_def next_generation_buffered [OF wf] bind_def)

section \<open>Seeding\<close>

lemma choice_sentinels: "c \<in> set (choice vals k draws) \<Longrightarrow> c = ON \<or> c = OFF"
  by (auto simp add: choice_def vals_def)

lemma length_choice: "length (choice vs k draws) = nat k"
  by (simp add: choice_def)

lemma chunk_length:
  assumes "length xs = n * n" and "r < n"
  shows "length (take n (drop (r * n) xs)) = n"
proof -
  have "Suc r * n \<le> n * n" using assms(2) by (simp only: mult_le_mono1 Suc_leI)
  then have "n \<le> n * n - r * n" by simp
  then show ?thesis using assms(1) by simp
qed

lemma reshape_square_well_formed:
  assumes "length xs = n * n" and "\<forall>c \<in> set xs. c = ON \<or> c = OFF"
  shows "\<exists>g. reshape_square xs (int n) = Inr g \<and> well_formed n g"
proof -
  have "well_formed n (map (\<lambda>r. take n (drop (r * n) xs)) [0..<n])"
    unfolding well_formed_def
    using assms(2) chunk_length [OF assms(1)]
    by (auto dest!: in_set_takeD in_set_dropD)
  then show ?thesis using assms(1) by (simp add: reshape_square_def)
qed

lemma random_grid_well_formed:
  "\<exists>g. random_grid (int n) draws = Inr g \<and> well_formed n g"
  unfolding random_grid_def
  by (rule reshape_square_well_formed)
     (auto simp add: length_choice nat_mult_distrib dest: choice_sentinels simp flip: of_nat_mult)

lemma random_grid_zero: "random_grid 0 draws = Inr []"
  by (simp add: random_grid_def reshape_square_def choice_def)

lemma random_grid_negative: "N < 0 \<Longrightarrow> random_grid N draws = Inl ValueError"
  by (simp add: random_grid_def reshape_square_def)

section \<open>The dead board\<close>

lemma alive_neighbours_dead: 
  assumes "i < n" "j < n"
  shows "alive_neighbours n (dead_grid n) i j = 0"
proof -
  have "0 < n" using assms by simp
  then have "\<forall>p \<in> set (torus_neighbours n i j). dead_grid n ! fst p ! snd p = OFF"
    using torus_in_range [OF _ assms] by (simp add: dead_grid_def)
  then show ?thesis
    by (simp add: alive_neighbours_def filter_empty_conv ON_def OFF_def)
qed

lemma well_formed_dead: "well_formed n (dead_grid n)"
  by (simp add: well_formed_def dead_grid_def)

lemma buffered_step_dead: "buffered_step n (dead_grid n) = dead_grid n"
proof -
  have "next_cell n (dead_grid n) i j = OFF" if "i < n" "j < n" for i j
  proof -
    have "dead_grid n ! i ! j = OFF" using that by (simp add: dead_grid_def)
    then show ?thesis
      unfolding next_cell_def alive_neighbours_dead [OF that]
      by (simp add: rule_def ON_def OFF_def)
  qed
  then have "map (\<lambda>i. map (\<lambda>j. next_cell n (dead_grid n) i j) [0..<n]) [0..<n] =
             map (\<lambda>i. map (\<lambda>j. OFF) [0..<n]) [0..<n]"
    by simp
  then show ?thesis
    by (simp add: buffered_step_def dead_grid_def map_replicate_const)
qed

section \<open>Stamping the glider\<close>

lemma length_assign_row: "length (assign_row row c vs) = length row"
  by (induction vs arbitrary: row c) simp_all

lemma nth_assign_row:
  "c + length vs \<le> length row \<Longrightarrow>
   assign_row row c vs ! k = (if c \<le> k \<and> k < c + length vs then vs ! (k - c) else row ! k)"
proof (induction vs arbitrary: row c)
  case Nil
  show ?case by simp
next
  case (Cons v vs)
  have "Suc c + length vs \<le> length (row[c := v])" using Cons.prems by simp
  from Cons.IH [OF this] show ?case
    using Cons.prems by (auto simp add: nth_Cons' nth_list_update)
qed

lemma set_assign_row: "set (assign_row row c vs) \<subseteq> set row \<union> set vs"
proof (induction vs arbitrary: row c)
  case Nil
  show ?case by simp
next
  case (Cons v vs)
  have "set (row[c := v]) \<subseteq> insert v (set row)" by (rule set_update_subset_insert)
  with Cons.IH [of "row[c := v]" "Suc c"] show ?case by auto
qed

lemma length_assign_block: "length (assign_block g r c blk) = length g"
  by (induction blk arbitrary: g r) simp_all

lemma nth_assign_block:
  "r + length blk \<le> length g \<Longrightarrow>
   assign_block g r c blk ! k =
     (if r \<le> k \<and> k < r + length blk then assign_row (g ! k) c (blk ! (k - r)) else g ! k)"
proof (induction blk arbitrary: g r)
  case Nil
  show ?case by auto
next
  case (Cons vs blk)
  have "Suc r + length blk \<le> length (g[r := assign_row (g ! r) c vs])"
    using Cons.prems by simp
  from Cons.IH [OF this] show ?case
    using Cons.prems by (auto simp add: nth_Cons' nth_list_update)
qed

lemma slice_range_inside: "r + 3 \<le> n \<Longrightarrow> slice_range n (int r) (int r + 3) = (r, 3)"
  by (simp add: slice_range_def clip_def)

lemma slice_range_three:
  "snd (slice_range n k (k + 3)) = 3 \<longleftrightarrow>
     (0 \<le> k \<and> k + 3 \<le> int n) \<or> (- int n \<le> k \<and> k \<le> - 4)"
  by (auto simp add: slice_range_def clip_def)

lemma slice_range_start:
  "fst (slice_range n k (k + 3)) = nat (if k < 0 then max (k + int n) 0 else min k (int n))"
  by (simp add: slice_range_def clip_def)

lemma ncols_rect: "g \<noteq> [] \<Longrightarrow> \<forall>row \<in> set g. length row = m \<Longrightarrow> ncols g = m"
  by (cases g) (simp_all add: ncols_def)

lemma add_glider_inside:
  assumes "\<forall>row \<in> set g. length row = m" and "r + 3 \<le> length g" and "c + 3 \<le> m"
  shows "add_glider (int r) (int c) g = Inr (assign_block g r c glider)"
proof -
  have "g \<noteq> []" using assms(2) by auto
  then have "ncols g = m" using assms(1) by (rule ncols_rect)
  then show ?thesis
    using assms(2,3) by (simp add: add_glider_def nrows_def slice_range_inside)
qed

lemma add_glider_cases:
  "add_glider i j g =
     (if snd (slice_range (nrows g) i (i + 3)) = 3 \<and> snd (slice_range (ncols g) j (j + 3)) = 3
      then Inr (assign_block g (fst (slice_range (nrows g) i (i + 3)))
                  (fst (slice_range (ncols g) j (j + 3))) glider)
      else Inl ValueError)"
  by (simp add: add_glider_def split: prod.splits)

lemma dead_grid_shape: "nrows (dead_grid 5) = 5 \<and> ncols (dead_grid 5) = 5"
  by code_simp

lemma glider_sentinels: "row \<in> set glider \<Longrightarrow> c \<in> set row \<Longrightarrow> c = ON \<or> c = OFF"
  by (auto simp add: glider_def ON_def OFF_def)

lemma assign_block_well_formed:
  assumes "\<forall>vs \<in> set blk. \<forall>v \<in> set vs. v = ON \<or> v = OFF"
  shows "well_formed n g \<Longrightarrow> well_formed n (assign_block g r c blk)"
  using assms
proof (induction blk arbitrary: g r)
  case Nil
  then show ?case by simp
next
  case (Cons vs blk)
  let ?row = "assign_row (g ! r) c vs"
  have "well_formed n (g[r := ?row])"
  proof (cases "r < length g")
    case True
    then have "g ! r \<in> set g" by simp
    then have old: "length (g ! r) = n \<and> (\<forall>v \<in> set (g ! r). v = ON \<or> v = OFF)"
      using Cons.prems(1) by (simp add: well_formed_def)
    have "set ?row \<subseteq> set (g ! r) \<union> set vs" by (rule set_assign_row)
    then have "\<forall>v \<in> set ?row. v = ON \<or> v = OFF"
      using old Cons.prems(2) by auto
    then show ?thesis
      using Cons.prems(1) old set_update_subset_insert [of g r ?row]
      by (auto simp add: well_formed_def length_assign_row)
  next
    case False
    then have "g[r := ?row] = g" by (simp add: list_update_beyond)
    then show ?thesis using Cons.prems(1) by simp
  qed
  then show ?case using Cons.IH Cons.prems(2) by simp
qed

lemma add_glider_well_formed:
  assumes "well_formed n g" and "add_glider i j g = Inr g'"
  shows "well_formed n g'"
proof -
  have "g' = assign_block g (fst (slice_range (nrows g) i (i + 3)))
                (fst (slice_range (ncols g) j (j + 3))) glider"
    using assms(2) by (auto simp add: add_glider_def split: prod.splits if_splits)
  then show ?thesis
    using assign_block_well_formed [OF _ assms(1)] glider_sentinels by blast
qed

section \<open>The step operation\<close>

lemma nth_buffered_step:
  "i < n \<Longrightarrow> j < n \<Longrightarrow> buffered_step n g ! i ! j = next_cell n g i j"
  by (simp add: buffered_step_def)

lemma well_formed_buffered_step: "well_formed n (buffered_step n g)"
  by (auto simp add: well_formed_def buffered_step_def next_cell_def rule_def)

section \<open>The claims\<close>

text \<open>
  C1. On a well-formed grid of dimension \<open>n\<close>, for every cell \<open>(i, j)\<close>: \<open>update\<close>
  returns, the neighbour total \<open>t\<close> it computes for the cell lies in \<open>0..8\<close>, and the cell's
  next state follows the rule table: a cell that is ON stays ON exactly when \<open>t\<close> is 2 or
  3 and is OFF otherwise; a cell that is OFF becomes ON exactly when \<open>t\<close> is 3 and stays
  OFF otherwise.
\<close>

theorem update_rule_table:
  assumes "well_formed n g" and "i < n" and "j < n"
  shows "\<exists>t g'. total_count (int n) g (int i) (int j) = Inr t \<and> 0 \<le> t \<and> t \<le> 8 \<and>
           update frame_num img g (int n) = Inr (g', g') \<and>
           (g ! i ! j = ON \<longrightarrow> g' ! i ! j = (if t = 2 \<or> t = 3 then ON else OFF)) \<and>
           (g ! i ! j = OFF \<longrightarrow> g' ! i ! j = (if t = 3 then ON else OFF))"
proof -
  let ?t = "int (alive_neighbours n g i j)"
  have t: "total_count (int n) g (int i) (int j) = Inr ?t"
    using assms by (rule total_alive_neighbours)
  have b: "0 \<le> ?t \<and> ?t \<le> 8"
    using alive_neighbours_le [of n g i j] by simp
  have u: "update frame_num img g (int n) = Inr (buffered_step n g, buffered_step n g)"
    using assms(1) by (rule update_buffered)
  have c: "buffered_step n g ! i ! j = rule (g ! i ! j) ?t"
    using assms(2,3) by (simp add: nth_buffered_step next_cell_def)
  have r1: "g ! i ! j = ON \<longrightarrow> rule (g ! i ! j) ?t = (if ?t = 2 \<or> ?t = 3 then ON else OFF)"
    by (simp add: rule_def)
  have r2: "g ! i ! j = OFF \<longrightarrow> rule (g ! i ! j) ?t = (if ?t = 3 then ON else OFF)"
    by (simp add: rule_def ON_def OFF_def)
  show ?thesis
    using t b u c r1 r2 by metis
qed

theorem update_rule_table_witness:
  "\<exists>t g'. total_count 5 blinker 2 1 = Inr t \<and> 0 \<le> t \<and> t \<le> 8 \<and>
     update 0 blinker blinker 5 = Inr (g', g') \<and>
     (blinker ! 2 ! 1 = ON \<longrightarrow> g' ! 2 ! 1 = (if t = 2 \<or> t = 3 then ON else OFF)) \<and>
     (blinker ! 2 ! 1 = OFF \<longrightarrow> g' ! 2 ! 1 = (if t = 3 then ON else OFF))"
proof -
  have "well_formed 5 blinker" by (simp add: well_formed_def blinker_def)
  from update_rule_table [OF this, of 2 1 0 blinker] show ?thesis by simp
qed

lemma lone_cell_totals:
  "list_all (\<lambda>a. list_all (\<lambda>b. total_count 5 lone_cell (int a) (int b) =
       Inr (if (a, b) \<in> {(4, 4), (4, 0), (4, 1), (0, 4), (0, 1), (1, 4), (1, 0), (1, 1)}
            then 1 else 0)) [0..<5]) [0..<5]"
  by code_simp

text \<open>
  C2. On a well-formed grid of dimension \<open>n\<close>, the total that \<open>update\<close> computes for
  cell \<open>(i, j)\<close> is the number of ON cells among the eight wrapped neighbour positions
  \<open>(i, j \<plusminus> 1)\<close>, \<open>(i \<plusminus> 1, j)\<close>, \<open>(i \<plusminus> 1, j \<plusminus> 1)\<close> modulo \<open>n\<close>. On the 5 by 5 grid
  whose only ON cell is \<open>(0, 0)\<close>, the total is 1 at the cells \<open>(4,4)\<close>, \<open>(4,0)\<close>, \<open>(4,1)\<close>,
  \<open>(0,4)\<close>, \<open>(0,1)\<close>, \<open>(1,4)\<close>, \<open>(1,0)\<close>, \<open>(1,1)\<close> and 0 at every other cell.
\<close>

theorem total_counts_wrapped_neighbours:
  "(well_formed n g \<and> i < n \<and> j < n \<longrightarrow>
      total_count (int n) g (int i) (int j) = Inr (int (alive_neighbours n g i j))) \<and>
   (\<forall>a<5. \<forall>b<5. total_count 5 lone_cell (int a) (int b) =
      Inr (if (a, b) \<in> {(4, 4), (4, 0), (4, 1), (0, 4), (0, 1), (1, 4), (1, 0), (1, 1)}
           then 1 else 0))"
proof
  show "well_formed n g \<and> i < n \<and> j < n \<longrightarrow>
      total_count (int n) g (int i) (int j) = Inr (int (alive_neighbours n g i j))"
    by (simp add: total_alive_neighbours)
next
  show "\<forall>a<5. \<forall>b<5. total_count 5 lone_cell (int a) (int b) =
      Inr (if (a, b) \<in> {(4, 4), (4, 0), (4, 1), (0, 4), (0, 1), (1, 4), (1, 0), (1, 1)}
           then 1 else 0)"
    using lone_cell_totals unfolding list_all_iff by simp
qed

theorem total_counts_wrapped_neighbours_witness:
  "total_count 5 blinker 2 1 = Inr (int (alive_neighbours 5 blinker 2 1)) \<and>
   alive_neighbours 5 blinker 2 1 = 3 \<and>
   total_count 5 lone_cell 4 4 = Inr 1 \<and> total_count 5 lone_cell 2 2 = Inr 0"
proof -
  have wf: "well_formed 5 blinker" by (simp add: well_formed_def blinker_def)
  have a: "alive_neighbours 5 blinker 2 1 = 3"
    by (simp add: alive_neighbours_def torus_neighbours_def blinker_def ON_def OFF_def)
  note all = total_counts_wrapped_neighbours [of 5 blinker 2 1]
  have x: "total_count 5 blinker 2 1 = Inr (int (alive_neighbours 5 blinker 2 1))"
    using all wf by simp
  have l: "\<forall>a<5. \<forall>b<5. total_count 5 lone_cell (int a) (int b) =
      Inr (if (a, b) \<in> {(4, 4), (4, 0), (4, 1), (0, 4), (0, 1), (1, 4), (1, 0), (1, 1)}
           then 1 else 0)"
    using all by (rule conjunct2)
  have y: "total_count 5 lone_cell 4 4 = Inr 1"
    using l [rule_format, of 4 4] by simp
  have z: "total_count 5 lone_cell 2 2 = Inr 0"
    using l [rule_format, of 2 2] by simp
  show ?thesis using x a y z by simp
qed

lemma blinker_unbuffered: "unbuffered_step 5 blinker = Inr (dead_grid 5)"
  by code_simp

lemma blinker_buffered: "buffered_step 5 blinker = blinker_turned"
  by code_simp

text \<open>
  C3. On a well-formed grid, the grid that \<open>update\<close> produces (and shows) is the
  simultaneous step \<open>buffered_step\<close>, each cell computed from the current generation
  alone. This holds where a step without the copy would differ: on the blinker the
  simultaneous step turns the bar, the unbuffered step kills it, and \<open>update\<close> turns it.
\<close>

theorem update_is_buffered_step:
  "(well_formed n g \<longrightarrow>
      update frame_num img g (int n) = Inr (buffered_step n g, buffered_step n g)) \<and>
   well_formed 5 blinker \<and>
   buffered_step 5 blinker = blinker_turned \<and>
   unbuffered_step 5 blinker = Inr (dead_grid 5) \<and>
   dead_grid 5 \<noteq> blinker_turned \<and>
   update frame_num img blinker 5 = Inr (blinker_turned, blinker_turned)"
proof -
  have wf: "well_formed 5 blinker" by (simp add: well_formed_def blinker_def)
  have u: "update frame_num img blinker (int 5) = Inr (buffered_step 5 blinker, buffered_step 5 blinker)"
    using wf by (rule update_buffered)
  have d: "dead_grid 5 \<noteq> blinker_turned"
    by code_simp
  show ?thesis
    using wf u d by (simp add: update_buffered blinker_unbuffered blinker_buffered)
qed

theorem update_is_buffered_step_witness:
  "update 0 lone_cell lone_cell 5 = Inr (dead_grid 5, dead_grid 5) \<and>
   buffered_step 5 lone_cell = dead_grid 5"
proof -
  have wf: "well_formed 5 lone_cell" by (simp add: well_formed_def lone_cell_def)
  have b: "buffered_step 5 lone_cell = dead_grid 5" by code_simp
  from update_is_buffered_step [of 5 lone_cell 0 lone_cell] wf b show ?thesis by simp
qed

text \<open>
  C4, as the code has it. \<open>random_grid\<close> takes the dimension only; the ON probability is
  the literal 0.2 and no probability is ever rejected. For \<open>N > 0\<close> it returns a
  well-formed grid of dimension \<open>N\<close> whatever the draws; for \<open>N = 0\<close> it returns the empty
  grid without an error; for \<open>N < 0\<close> the reshape raises ValueError.
\<close>

theorem random_grid_outcomes:
  "(0 < N \<longrightarrow> (\<exists>g. random_grid N draws = Inr g \<and> well_formed (nat N) g)) \<and>
   (N = 0 \<longrightarrow> random_grid N draws = Inr []) \<and>
   (N < 0 \<longrightarrow> random_grid N draws = Inl ValueError)"
proof -
  have "\<exists>g. random_grid N draws = Inr g \<and> well_formed (nat N) g" if "0 < N"
    using that random_grid_well_formed [of "nat N" draws] by simp
  then show ?thesis
    by (simp add: random_grid_zero random_grid_negative)
qed

theorem random_grid_outcomes_witness:
  "(\<exists>g. random_grid 2 no_draws = Inr g \<and> well_formed 2 g) \<and>
   random_grid 0 even = Inr [] \<and> random_grid (- 1) even = Inl ValueError"
  using random_grid_outcomes [of 2 no_draws] random_grid_outcomes [of 0 even]
    random_grid_outcomes [of "- 1" even]
  by simp

text \<open>
  Against C4 as stated (an error for every \<open>N \<le> 0\<close>): dimension 0 yields the empty grid.
\<close>

theorem random_grid_zero_counterexample: "random_grid 0 no_draws = Inr []"
  by (simp add: random_grid_def reshape_square_def choice_def)

text \<open>
  C5. On a grid of \<open>n\<close> rows and \<open>m\<close> columns, with the anchor \<open>(r, c)\<close> such that
  \<open>r + 3 \<le> n\<close> and \<open>c + 3 \<le> m\<close>, \<open>add_glider\<close> succeeds, keeps the shape, sets the block
  of rows \<open>r..r+2\<close> and columns \<open>c..c+2\<close> to the pattern
  OFF OFF ON / ON OFF ON / OFF ON ON, and leaves every cell outside the block as it was.
\<close>

theorem add_glider_frame:
  assumes "length g = n" and "\<forall>row \<in> set g. length row = m"
    and "r + 3 \<le> n" and "c + 3 \<le> m"
  shows "\<exists>g'. add_glider (int r) (int c) g = Inr g' \<and>
           length g' = n \<and> (\<forall>k<n. length (g' ! k) = m) \<and>
           (\<forall>a<3. \<forall>b<3. g' ! (r + a) ! (c + b) =
              [[OFF, OFF, ON], [ON, OFF, ON], [OFF, ON, ON]] ! a ! b) \<and>
           (\<forall>k<n. \<forall>l<m. \<not> (r \<le> k \<and> k < r + 3 \<and> c \<le> l \<and> l < c + 3) \<longrightarrow>
              g' ! k ! l = g ! k ! l)"
proof -
  let ?g' = "assign_block g r c glider"
  have res: "add_glider (int r) (int c) g = Inr ?g'"
    by (rule add_glider_inside [OF assms(2)]) (use assms in simp_all)
  have lg: "length glider = 3" by (simp add: glider_def)
  have lr: "length (glider ! a) = 3" if "a < 3" for a
    using that by (auto simp add: glider_def less_Suc_eq numeral_3_eq_3)
  have pat: "glider = [[OFF, OFF, ON], [ON, OFF, ON], [OFF, ON, ON]]"
    by (simp add: glider_def ON_def OFF_def)
  have row: "length (g ! k) = m" if "k < n" for k
    using that assms(1,2) by simp
  have nth: "?g' ! k = (if r \<le> k \<and> k < r + 3 then assign_row (g ! k) c (glider ! (k - r)) else g ! k)"
    for k
    using nth_assign_block [of r glider g c k] assms(1,3) lg by simp
  have len: "\<forall>k<n. length (?g' ! k) = m"
    using row by (simp add: nth length_assign_row)
  have inside: "\<forall>a<3. \<forall>b<3. ?g' ! (r + a) ! (c + b) = glider ! a ! b"
  proof (intro allI impI)
    fix a b :: nat assume a: "a < 3" and b: "b < 3"
    have "c + length (glider ! a) \<le> length (g ! (r + a))"
      using a assms(3,4) row [of "r + a"] lr [OF a] by simp
    from nth_assign_row [OF this, of "c + b"] show "?g' ! (r + a) ! (c + b) = glider ! a ! b"
      using a b lr [OF a] by (simp add: nth)
  qed
  have outside: "\<forall>k<n. \<forall>l<m. \<not> (r \<le> k \<and> k < r + 3 \<and> c \<le> l \<and> l < c + 3) \<longrightarrow>
              ?g' ! k ! l = g ! k ! l"
  proof (intro allI impI)
    fix k l assume k: "k < n" and l: "l < m"
      and out: "\<not> (r \<le> k \<and> k < r + 3 \<and> c \<le> l \<and> l < c + 3)"
    show "?g' ! k ! l = g ! k ! l"
    proof (cases "r \<le> k \<and> k < r + 3")
      case True
      then have a: "k - r < 3" by arith
      have "c + length (glider ! (k - r)) \<le> length (g ! k)"
        using assms(4) row [OF k] lr [OF a] by simp
      from nth_assign_row [OF this, of l] show ?thesis
        using True out lr [OF a] by (auto simp add: nth)
    next
      case False
      then show ?thesis by (auto simp add: nth)
    qed
  qed
  show ?thesis
    using res len inside outside assms(1) unfolding pat [symmetric]
    by (simp add: length_assign_block)
qed

theorem add_glider_frame_witness:
  "\<exists>g'. add_glider 1 1 (dead_grid 5) = Inr g' \<and>
           length g' = 5 \<and> (\<forall>k<5. length (g' ! k) = 5) \<and>
           (\<forall>a<3. \<forall>b<3. g' ! (1 + a) ! (1 + b) =
              [[OFF, OFF, ON], [ON, OFF, ON], [OFF, ON, ON]] ! a ! b) \<and>
           (\<forall>k<5. \<forall>l<5. \<not> (1 \<le> k \<and> k < 1 + 3 \<and> 1 \<le> l \<and> l < 1 + 3) \<longrightarrow>
              g' ! k ! l = dead_grid 5 ! k ! l)"
  using add_glider_frame [of "dead_grid 5" 5 5 1 1]
  by (simp add: dead_grid_def)

text \<open>
  C6, as the code has it. Call an anchor component \<open>k\<close> on an axis of length \<open>n\<close> fitting
  when \<open>0 \<le> k\<close> and \<open>k + 3 \<le> n\<close>, or when \<open>- n \<le> k \<le> - 4\<close> (a negative component counts
  from the end of the axis, so that \<open>k\<close> names index \<open>k + n\<close>). \<open>add_glider\<close> raises
  ValueError exactly when the row component or the column component does not fit; then
  the grid holds afterwards what it held before. In every other case the whole pattern is
  stamped, at the indices the components name. So every anchor whose block would leave
  the grid is refused (non-negative ones passing the last row or column, and negative
  ones in \<open>-3..-1\<close> or below \<open>- n\<close>), except those whose offending components lie in
  \<open>- n..- 4\<close>.
\<close>

theorem add_glider_fails_iff:
  "(add_glider i j g = Inl ValueError \<longleftrightarrow>
      \<not> (((0 \<le> i \<and> i + 3 \<le> int (nrows g)) \<or> (- int (nrows g) \<le> i \<and> i \<le> - 4)) \<and>
         ((0 \<le> j \<and> j + 3 \<le> int (ncols g)) \<or> (- int (ncols g) \<le> j \<and> j \<le> - 4)))) \<and>
   (add_glider i j g = Inl ValueError \<longrightarrow> grid_after g (add_glider i j g) = g) \<and>
   (add_glider i j g \<noteq> Inl ValueError \<longrightarrow>
      add_glider i j g =
        Inr (assign_block g (nat (if i < 0 then i + int (nrows g) else i))
               (nat (if j < 0 then j + int (ncols g) else j)) glider))"
proof -
  let ?fi = "(0 \<le> i \<and> i + 3 \<le> int (nrows g)) \<or> (- int (nrows g) \<le> i \<and> i \<le> - 4)"
  let ?fj = "(0 \<le> j \<and> j + 3 \<le> int (ncols g)) \<or> (- int (ncols g) \<le> j \<and> j \<le> - 4)"
  have a: "add_glider i j g = Inl ValueError \<longleftrightarrow> \<not> (?fi \<and> ?fj)"
    unfolding add_glider_cases slice_range_three by simp
  have b: "add_glider i j g = Inl ValueError \<longrightarrow> grid_after g (add_glider i j g) = g"
    by (simp add: grid_after_def)
  have si: "fst (slice_range (nrows g) i (i + 3)) = nat (if i < 0 then i + int (nrows g) else i)"
    if ?fi
    using that unfolding slice_range_start by auto
  have sj: "fst (slice_range (ncols g) j (j + 3)) = nat (if j < 0 then j + int (ncols g) else j)"
    if ?fj
    using that unfolding slice_range_start by auto
  have c: "add_glider i j g =
        Inr (assign_block g (nat (if i < 0 then i + int (nrows g) else i))
               (nat (if j < 0 then j + int (ncols g) else j)) glider)"
    if "add_glider i j g \<noteq> Inl ValueError"
  proof -
    have f: "?fi \<and> ?fj" using that a by blast
    then have "snd (slice_range (nrows g) i (i + 3)) = 3 \<and> snd (slice_range (ncols g) j (j + 3)) = 3"
      unfolding slice_range_three by simp
    then show ?thesis
      using f si sj unfolding add_glider_cases by simp
  qed
  show ?thesis using a b c by blast
qed

theorem add_glider_fails_iff_witness:
  "add_glider 3 3 (dead_grid 5) = Inl ValueError \<and>
   grid_after (dead_grid 5) (add_glider 3 3 (dead_grid 5)) = dead_grid 5 \<and>
   add_glider (- 3) 0 (dead_grid 5) = Inl ValueError \<and>
   add_glider (- 6) 0 (dead_grid 5) = Inl ValueError \<and>
   add_glider 3 (- 4) (dead_grid 5) = Inl ValueError \<and>
   add_glider (- 4) (- 4) (dead_grid 5) = Inr (assign_block (dead_grid 5) 1 1 glider) \<and>
   add_glider 1 1 (dead_grid 5) = Inr (assign_block (dead_grid 5) 1 1 glider)"
  using add_glider_fails_iff [of 3 3 "dead_grid 5"]
    add_glider_fails_iff [of "- 3" 0 "dead_grid 5"]
    add_glider_fails_iff [of "- 6" 0 "dead_grid 5"]
    add_glider_fails_iff [of 3 "- 4" "dead_grid 5"]
    add_glider_fails_iff [of "- 4" "- 4" "dead_grid 5"]
    add_glider_fails_iff [of 1 1 "dead_grid 5"]
  by (simp add: dead_grid_shape)

text \<open>
  Against C6 as stated (an error for every anchor whose block leaves the grid): the anchor
  \<open>(-4, -4)\<close> on a 5 by 5 grid names rows and columns \<open>-4..-2\<close>, and the glider is stamped
  at rows and columns \<open>1..3\<close> without an error.
\<close>

theorem add_glider_negative_anchor_counterexample:
  "add_glider (- 4) (- 4) (dead_grid 5) =
     Inr [[OFF, OFF, OFF, OFF, OFF],
          [OFF, OFF, OFF, ON, OFF],
          [OFF, ON, OFF, ON, OFF],
          [OFF, OFF, ON, ON, OFF],
          [OFF, OFF, OFF, OFF, OFF]]"
  by code_simp

text \<open>
  C7. Well-formedness is kept by every operation: a grid returned by \<open>random_grid N\<close>
  is well formed of dimension \<open>N\<close>; the pattern \<open>add_glider\<close> writes holds the two
  sentinels only, so stamping a well-formed grid gives a well-formed grid; and \<open>update\<close>
  on a well-formed grid returns a well-formed grid.
\<close>

theorem well_formedness_preserved:
  "(random_grid N draws = Inr g0 \<longrightarrow> well_formed (nat N) g0) \<and>
   (\<forall>row \<in> set glider. \<forall>c \<in> set row. c = ON \<or> c = OFF) \<and>
   (well_formed n g \<and> add_glider i j g = Inr g1 \<longrightarrow> well_formed n g1) \<and>
   (well_formed n g \<longrightarrow>
      (\<exists>g'. update frame_num img g (int n) = Inr (g', g') \<and> well_formed n g'))"
proof -
  have a: "random_grid N draws = Inr g0 \<longrightarrow> well_formed (nat N) g0"
  proof (cases "N < 0")
    case True
    then show ?thesis by (simp add: random_grid_negative)
  next
    case False
    then show ?thesis using random_grid_well_formed [of "nat N" draws] by auto
  qed
  have b: "\<forall>row \<in> set glider. \<forall>c \<in> set row. c = ON \<or> c = OFF"
    using glider_sentinels by blast
  have c: "well_formed n g \<and> add_glider i j g = Inr g1 \<longrightarrow> well_formed n g1"
    using add_glider_well_formed by blast
  have d: "well_formed n g \<longrightarrow>
      (\<exists>g'. update frame_num img g (int n) = Inr (g', g') \<and> well_formed n g')"
    by (simp add: update_buffered well_formed_buffered_step)
  show ?thesis using a b c d by blast
qed

theorem well_formedness_preserved_witness:
  "well_formed 2 [[OFF, OFF], [OFF, OFF]] \<and>
   well_formed 5 [[OFF, OFF, OFF, OFF, OFF],
                  [OFF, OFF, OFF, ON, OFF],
                  [OFF, ON, OFF, ON, OFF],
                  [OFF, OFF, ON, ON, OFF],
                  [OFF, OFF, OFF, OFF, OFF]] \<and>
   (\<exists>g'. update 0 blinker blinker 5 = Inr (g', g') \<and> well_formed 5 g')"
proof -
  have r: "random_grid 2 no_draws = Inr [[OFF, OFF], [OFF, OFF]]"
    by code_simp
  have s: "add_glider 1 1 (dead_grid 5) =
     Inr [[OFF, OFF, OFF, OFF, OFF],
          [OFF, OFF, OFF, ON, OFF],
          [OFF, ON, OFF, ON, OFF],
          [OFF, OFF, ON, ON, OFF],
          [OFF, OFF, OFF, OFF, OFF]]"
    by code_simp
  have w: "well_formed 5 blinker" by (simp add: well_formed_def blinker_def)
  have d: "well_formed 5 (dead_grid 5)" by (rule well_formed_dead)
  show ?thesis
    using well_formedness_preserved [of 2 no_draws "[[OFF, OFF], [OFF, OFF]]" 5 "dead_grid 5" 1 1
        "[[OFF, OFF, OFF, OFF, OFF],
          [OFF, OFF, OFF, ON, OFF],
          [OFF, ON, OFF, ON, OFF],
          [OFF, OFF, ON, ON, OFF],
          [OFF, OFF, OFF, OFF, OFF]]" 0 blinker]
      well_formedness_preserved [of 2 no_draws "[]" 5 blinker 1 1 "[]" 0 blinker]
      r s w d
    by simp
qed

text \<open>
  C8. On the grid of dimension 1 all eight wrapped neighbour positions of the cell are
  \<open>(0, 0)\<close>: a lone ON cell has total 8 and becomes OFF, an OFF cell has total 0 and stays
  OFF.
\<close>

theorem single_cell_grid:
  "neighbours 1 0 0 = [(0, 0), (0, 0), (0, 0), (0, 0), (0, 0), (0, 0), (0, 0), (0, 0)] \<and>
   total_count 1 [[ON]] 0 0 = Inr 8 \<and>
   update frame_num img [[ON]] 1 = Inr ([[OFF]], [[OFF]]) \<and>
   total_count 1 [[OFF]] 0 0 = Inr 0 \<and>
   update frame_num img [[OFF]] 1 = Inr ([[OFF]], [[OFF]])"
proof -
  have n: "neighbours 1 0 0 = [(0, 0), (0, 0), (0, 0), (0, 0), (0, 0), (0, 0), (0, 0), (0, 0)]"
    by (simp add: neighbours_def)
  have t1: "total_count 1 [[ON]] 0 0 = Inr 8"
    by code_simp
  have t0: "total_count 1 [[OFF]] 0 0 = Inr 0"
    by code_simp
  have g1: "next_generation 1 [[ON]] = Inr [[OFF]]"
    by code_simp
  have g0: "next_generation 1 [[OFF]] = Inr [[OFF]]"
    by code_simp
  have u1: "update frame_num img [[ON]] 1 = Inr ([[OFF]], [[OFF]])"
    by (simp add: update_def g1 bind_def)
  have u0: "update frame_num img [[OFF]] 1 = Inr ([[OFF]], [[OFF]])"
    by (simp add: update_def g0 bind_def)
  show ?thesis using n t1 t0 u1 u0 by simp
qed

text \<open>
  C9. On a well-formed grid of dimension \<open>n\<close>, \<open>update\<close> returns without an error a grid
  of \<open>n\<close> rows of \<open>n\<close> cells; every index it computes, for the cell and for its eight
  neighbours, lies in \<open>0..n-1\<close> and every read succeeds.
\<close>

theorem update_total:
  assumes "well_formed n g"
  shows "\<exists>g'. update frame_num img g (int n) = Inr (g', g') \<and>
           length g' = n \<and> (\<forall>k<n. length (g' ! k) = n) \<and>
           (\<forall>i<n. \<forall>j<n.
              (\<exists>c. get g (int i) (int j) = Inr c) \<and>
              (\<forall>p \<in> set (neighbours (int n) (int i) (int j)).
                 0 \<le> fst p \<and> fst p < int n \<and> 0 \<le> snd p \<and> snd p < int n \<and>
                 (\<exists>v. get g (fst p) (snd p) = Inr v)))"
proof -
  have u: "update frame_num img g (int n) = Inr (buffered_step n g, buffered_step n g)"
    using assms by (rule update_buffered)
  have l: "length (buffered_step n g) = n \<and> (\<forall>k<n. length (buffered_step n g ! k) = n)"
    by (simp add: buffered_step_def)
  have rd: "\<exists>c. get g (int a) (int b) = Inr c" if "a < n" "b < n" for a b
    using that assms by (simp add: get_in_range well_formed_length well_formed_row)
  have nb: "0 \<le> fst p \<and> fst p < int n \<and> 0 \<le> snd p \<and> snd p < int n \<and>
            (\<exists>v. get g (fst p) (snd p) = Inr v)"
    if i: "i < n" and j: "j < n" and p: "p \<in> set (neighbours (int n) (int i) (int j))" for i j p
  proof -
    have n: "0 < n" using i by simp
    obtain q where q: "q \<in> set (torus_neighbours n i j)" and pq: "p = (int (fst q), int (snd q))"
      using p unfolding neighbours_torus [OF n] by auto
    have "fst q < n \<and> snd q < n" using torus_in_range [OF n i j q] .
    then show ?thesis using pq rd [of "fst q" "snd q"] by simp
  qed
  show ?thesis using u l rd nb by blast
qed

theorem update_total_witness:
  "\<exists>g'. update 0 blinker blinker 5 = Inr (g', g') \<and>
           length g' = 5 \<and> (\<forall>k<5. length (g' ! k) = 5) \<and>
           (\<forall>i<5. \<forall>j<5.
              (\<exists>c. get blinker (int i) (int j) = Inr c) \<and>
              (\<forall>p \<in> set (neighbours 5 (int i) (int j)).
                 0 \<le> fst p \<and> fst p < 5 \<and> 0 \<le> snd p \<and> snd p < 5 \<and>
                 (\<exists>v. get blinker (fst p) (snd p) = Inr v)))"
proof -
  have "well_formed 5 blinker" by (simp add: well_formed_def blinker_def)
  from update_total [OF this, of 0 blinker] show ?thesis by simp
qed

text \<open>
  C10. The all-OFF grid of any dimension is a fixed point of \<open>update\<close>, every neighbour
  total on it being 0.
\<close>

theorem dead_grid_fixed_point:
  "update frame_num img (dead_grid n) (int n) = Inr (dead_grid n, dead_grid n) \<and>
   (i < n \<and> j < n \<longrightarrow> total_count (int n) (dead_grid n) (int i) (int j) = Inr 0)"
proof -
  have "i < n \<and> j < n \<longrightarrow> total_count (int n) (dead_grid n) (int i) (int j) = Inr 0"
    using total_alive_neighbours [OF well_formed_dead, of i n j]
    by (simp add: alive_neighbours_dead)
  then show ?thesis
    using update_buffered [OF well_formed_dead, of frame_num img n]
    by (simp add: buffered_step_dead)
qed

theorem dead_grid_fixed_point_witness:
  "update 0 [] [[OFF, OFF, OFF], [OFF, OFF, OFF], [OFF, OFF, OFF]] 3 =
     Inr ([[OFF, OFF, OFF], [OFF, OFF, OFF], [OFF, OFF, OFF]],
          [[OFF, OFF, OFF], [OFF, OFF, OFF], [OFF, OFF, OFF]]) \<and>
   total_count 3 [[OFF, OFF, OFF], [OFF, OFF, OFF], [OFF, OFF, OFF]] 1 2 = Inr 0"
proof -
  have d: "dead_grid 3 = [[OFF, OFF, OFF], [OFF, OFF, OFF], [OFF, OFF, OFF]]"
    by code_simp
  from dead_grid_fixed_point [of 0 "[]" 3 1 2] show ?thesis unfolding d by simp
qed

end
